theory Spec2Isabelle
  imports Complex_Main "HOL-Library.Multiset"
begin

section \<open>Conventions of the embedding\<close>

text \<open>
  The notebook computes with NumPy and PyTorch floating-point numbers. The embedding uses
  the real numbers in their place (no rounding, no infinities, no NaN). Two conversions
  that are not roundings are modelled: the cast of a float to an integer array element
  (it truncates toward zero) and the overflow of a float, which Python reports as an
  \<open>OverflowError\<close> when an integer is converted or \<open>math.exp\<close> is evaluated. The parameters
  \<open>eps_start\<close>, \<open>eps_end\<close> and \<open>eps_decay\<close> of the exploration policy are floats.

  Python exceptions are values of type \<open>error\<close>, named after the exception the interpreter
  or the library raises. Indices and counters that the code only ever uses as
  non-negative integers are natural numbers.

  The pseudo-random generator is an explicit input. \<open>random.random()\<close> contributes the
  number it returns. The integer draws are made by the library's \<open>_randbelow\<close>, a loop that
  asks the generator for numbers until one is below the bound: a function that calls it
  takes the list of the numbers the generator supplies, and returns \<open>None\<close> when that
  list ends before the loop does.
\<close>

datatype error =
    IndexError
  | ZeroDivisionError
  | OverflowError
  | TypeError
  | EmptySequence                \<comment> \<open>ValueError of \<open>np.argmax\<close> / \<open>random.randrange\<close> on an empty range\<close>
  | SampleLargerThanPopulation   \<comment> \<open>ValueError of \<open>random.sample\<close>\<close>
  | BroadcastError               \<comment> \<open>ValueError of a NumPy slice assignment with mismatched shapes\<close>
  | RuntimeError                 \<comment> \<open>raised by a PyTorch operator\<close>

fun foldM_err ::
  "('a \<Rightarrow> 's \<Rightarrow> (error + 's) option) \<Rightarrow> 'a list \<Rightarrow> 's \<Rightarrow> (error + 's) option" where
  "foldM_err f [] s = Some (Inr s)"
| "foldM_err f (x # xs) s =
     (case f x s of
        None \<Rightarrow> None
      | Some (Inl e) \<Rightarrow> Some (Inl e)
      | Some (Inr s') \<Rightarrow> foldM_err f xs s')"

fun map_err :: "('a \<Rightarrow> error + 'b) \<Rightarrow> 'a list \<Rightarrow> error + 'b list" where
  "map_err f [] = Inr []"
| "map_err f (x # xs) =
     (case f x of Inl e \<Rightarrow> Inl e
      | Inr y \<Rightarrow> (case map_err f xs of Inl e \<Rightarrow> Inl e | Inr ys \<Rightarrow> Inr (y # ys)))"

section \<open>The market model of the baseline cell\<close>

text \<open>
  \<open>plus\<close>, \<open>minus\<close>, \<open>shock\<close>, \<open>q_t\<close> and \<open>profit_t\<close> of the cell "Environment simulator".
  \<open>shock\<close> is only applied to the results of \<open>plus\<close> and \<open>minus\<close>, which are not negative.
\<close>

definition plus_py :: "real \<Rightarrow> real" where
  "plus_py x = (if x < 0 then 0 else x)"

definition minus_py :: "real \<Rightarrow> real" where
  "minus_py x = (if x > 0 then 0 else - x)"

definition shock :: "real \<Rightarrow> real" where
  "shock x = sqrt x"

definition q_t :: "real \<Rightarrow> real \<Rightarrow> real \<Rightarrow> real \<Rightarrow> real \<Rightarrow> real \<Rightarrow> real" where
  "q_t p_t p_t_1 q_0 k a b =
     plus_py (q_0 - k * p_t - a * shock (plus_py (p_t - p_t_1)) + b * shock (minus_py (p_t - p_t_1)))"

definition profit_t :: "real \<Rightarrow> real \<Rightarrow> real \<Rightarrow> real \<Rightarrow> real \<Rightarrow> real \<Rightarrow> real \<Rightarrow> real" where
  "profit_t p_t p_t_1 q_0 k a b unit_cost = q_t p_t p_t_1 q_0 k a b * (p_t - unit_cost)"

text \<open>
  The partial binding \<open>profit_t_response(p_t, p_t_1)\<close> of the same cell, with the cell's
  parameters \<open>q_0 = 5000\<close>, \<open>k = 20\<close>, \<open>a_q = 300\<close>, \<open>b_q = 100\<close>, \<open>unit_cost = 100\<close>.
  The DQN cell defines another function under the same name (below); this one carries
  the suffix \<open>_demand\<close>.
\<close>

definition profit_t_response_demand :: "real \<Rightarrow> real \<Rightarrow> real" where
  "profit_t_response_demand p_t p_t_1 = profit_t p_t p_t_1 5000 20 300 100 100"

section \<open>The DQN cell: configuration\<close>

text \<open>
  The module-level constants the functions of the DQN cell read. \<open>notebook_config\<close> holds
  the values the cell assigns; \<open>np.linspace(80, 120, 10)\<close> is ten equally spaced prices.
\<close>

record config =
  T :: nat
  price_grid :: "real list"
  GAMMA :: real
  TARGET_UPDATE :: nat
  BATCH_SIZE :: nat

definition linspace :: "real \<Rightarrow> real \<Rightarrow> nat \<Rightarrow> real list" where
  "linspace start stop num = map (\<lambda>i. start + real i * ((stop - start) / real (num - 1))) [0..<num]"

definition notebook_config :: config where
  "notebook_config =
     \<lparr>T = 10, price_grid = linspace 80 120 10, GAMMA = 1, TARGET_UPDATE = 20, BATCH_SIZE = 512\<rparr>"

section \<open>The DQN cell: environment\<close>

text \<open>
  A one-dimensional NumPy array is its element type and its elements. An \<open>Int64\<close> array
  holds integers; storing a float into it casts the float, truncating toward zero.
\<close>

datatype dtype = Int64 | Float64

record ndarray =
  dtype :: dtype
  data :: "real list"

definition trunc :: "real \<Rightarrow> int" where
  "trunc x = (if 0 \<le> x then \<lfloor>x\<rfloor> else \<lceil>x\<rceil>)"

definition cast :: "dtype \<Rightarrow> real \<Rightarrow> real" where
  "cast d x = (case d of Int64 \<Rightarrow> of_int (trunc x) | Float64 \<Rightarrow> x)"

text \<open>\<open>np.diff\<close>: the differences of neighbours, \<open>out[i] = a[i+1] - a[i]\<close>.\<close>

fun diff :: "real list \<Rightarrow> real list" where
  "diff (x # y # ys) = (y - x) # diff (y # ys)"
| "diff _ = []"

text \<open>\<open>profit_t_response(price, prev_prices)\<close> of the DQN cell ("Example profit function").\<close>

definition profit_t_response :: "real \<Rightarrow> real list \<Rightarrow> real" where
  "profit_t_response price prev_prices = price - (1 / 10) * sum_list (map abs (diff prev_prices))"

text \<open>\<open>np.repeat(0, 2*T)\<close>: an array of the integer 0, so of element type \<open>Int64\<close>.\<close>

definition env_initial_state :: "config \<Rightarrow> ndarray" where
  "env_initial_state cfg = \<lparr>dtype = Int64, data = replicate (2 * T cfg) 0\<rparr>"

text \<open>
  The slice assignment \<open>a[lo:hi] = src\<close> for bounds that are not negative: the bounds are
  clipped to the array, and \<open>src\<close> must have the length of the slice or length 1 (which
  NumPy broadcasts).
\<close>

definition setslice :: "real list \<Rightarrow> nat \<Rightarrow> nat \<Rightarrow> real list \<Rightarrow> error + real list" where
  "setslice a lo hi src =
     (let lo' = min lo (length a); hi' = max lo' (min hi (length a)); n = hi' - lo'
      in if length src = n then Inr (take lo' a @ src @ drop hi' a)
         else if length src = 1 then Inr (take lo' a @ replicate n (hd src) @ drop hi' a)
         else Inl BroadcastError)"

text \<open>
  \<open>env_step(t, state, action)\<close>. \<open>np.zeros_like(state)\<close> keeps the element type of \<open>state\<close>.
  \<open>state[0:T-1]\<close> is the first \<open>T - 1\<close> elements (for \<open>T = 0\<close> the upper bound is \<open>-1\<close>:
  all but the last).
\<close>

definition env_step :: "config \<Rightarrow> nat \<Rightarrow> ndarray \<Rightarrow> nat \<Rightarrow> error + (ndarray \<times> real)" where
  "env_step cfg t st act =
     (let next_state0 = replicate (length (data st)) (0::real)
      in if length (price_grid cfg) \<le> act then Inl IndexError
         else if next_state0 = [] then Inl IndexError
         else
           let next_state1 = next_state0[0 := cast (dtype st) (price_grid cfg ! act)]
           in case setslice next_state1 1 (T cfg)
                     (if T cfg = 0 then butlast (data st) else take (T cfg - 1) (data st)) of
                Inl e \<Rightarrow> Inl e
              | Inr next_state2 \<Rightarrow>
                  if length next_state2 \<le> T cfg + t then Inl IndexError
                  else
                    let next_state = next_state2[T cfg + t := cast (dtype st) 1];
                        reward = profit_t_response (next_state ! 0) (take (T cfg - 1) (drop 1 next_state))
                    in Inr (\<lparr>dtype = dtype st, data = next_state\<rparr>, reward))"

section \<open>The DQN cell: replay memory\<close>

text \<open>
  \<open>Transition\<close> is a named tuple \<open>(state, action, next_state, reward)\<close>; \<open>next_state\<close> is
  \<open>None\<close> for the last step of an episode. The states are the tensors \<open>to_tensor\<close> makes
  of the arrays: their elements.

  \<open>ReplayMemory\<close>: \<open>memory\<close> is a Python list whose slots hold a transition or, between
  the \<open>append(None)\<close> and the assignment of \<open>push\<close>, \<open>None\<close>. A capacity that is not
  positive behaves like capacity 0.
\<close>

type_synonym transition = "real list \<times> nat \<times> real list option \<times> real"

record 'a ReplayMemory =
  capacity :: nat
  memory :: "'a option list"
  position :: nat

definition ReplayMemory_init :: "nat \<Rightarrow> 'a ReplayMemory" where
  "ReplayMemory_init c = \<lparr>capacity = c, memory = [], position = 0\<rparr>"

definition push :: "'a ReplayMemory \<Rightarrow> 'a \<Rightarrow> error + 'a ReplayMemory" where
  "push m x =
     (let mem1 = (if length (memory m) < capacity m then memory m @ [None] else memory m)
      in if length mem1 \<le> position m then Inl IndexError
         else if capacity m = 0 then Inl ZeroDivisionError
         else Inr (m\<lparr>memory := mem1[position m := Some x],
                     position := (position m + 1) mod capacity m\<rparr>))"

fun push_all :: "'a ReplayMemory \<Rightarrow> 'a list \<Rightarrow> error + 'a ReplayMemory" where
  "push_all m [] = Inr m"
| "push_all m (x # xs) = (case push m x of Inl e \<Rightarrow> Inl e | Inr m' \<Rightarrow> push_all m' xs)"

definition len :: "'a ReplayMemory \<Rightarrow> nat" where
  "len m = length (memory m)"

section \<open>The generator of the standard library\<close>

text \<open>
  \<open>_randbelow(n)\<close> (CPython 3.11, \<open>_randbelow_with_getrandbits\<close>): \<open>r = getrandbits(k)\<close>,
  repeated while \<open>r >= n\<close>. \<open>gen\<close> lists the values \<open>getrandbits\<close> returns; the result is the
  first of them below \<open>n\<close>, with the values left for later calls.
\<close>

fun randbelow :: "nat \<Rightarrow> nat list \<Rightarrow> (nat \<times> nat list) option" where
  "randbelow n [] = None"
| "randbelow n (r # gen) = (if r < n then Some (r, gen) else randbelow n gen)"

lemma randbelow_shorter: "randbelow n gen = Some (j, gen') \<Longrightarrow> length gen' < length gen"
  by (induction gen) (auto split: if_splits)

text \<open>
  \<open>random.randrange(n)\<close>: a \<open>ValueError\<close> for an empty range, otherwise \<open>_randbelow(n)\<close>.
\<close>

definition randrange :: "nat \<Rightarrow> nat list \<Rightarrow> (error + nat) option" where
  "randrange n gen =
     (if n = 0 then Some (Inl EmptySequence)
      else case randbelow n gen of None \<Rightarrow> None | Some (j, gen') \<Rightarrow> Some (Inr j))"

text \<open>
  \<open>random.sample(population, k)\<close> (CPython 3.11): a \<open>ValueError\<close> when \<open>k\<close> exceeds the
  population; otherwise \<open>k\<close> picks without replacement, made in one of two ways.
  \<open>setsize\<close> is \<open>21\<close>, plus \<open>4 ** ceil(log(3 * k, 4))\<close> when \<open>k > 5\<close>: the least power of 4
  that is at least \<open>3 * k\<close> (\<open>3 * k\<close> is never a power of 4).
\<close>

function ceil_pow4 :: "nat \<Rightarrow> nat" where
  "ceil_pow4 m = (if m \<le> 1 then 1 else 4 * ceil_pow4 ((m + 3) div 4))"
  by pat_completeness auto
termination
  by (relation "measure id") auto

definition setsize :: "nat \<Rightarrow> nat" where
  "setsize k = (if 5 < k then 21 + ceil_pow4 (3 * k) else 21)"

text \<open>
  A population of at most \<open>setsize\<close>: the \<open>i\<close>-th pick takes the slot \<open>j = randbelow(n - i)\<close>
  of a pool of the \<open>n - i\<close> items not picked yet and moves the pool's last item into the
  vacancy. \<open>sample_pool\<close> is that loop on the live part of the pool, for the picks still
  to make.
\<close>

fun sample_pool :: "'a list \<Rightarrow> nat \<Rightarrow> nat list \<Rightarrow> 'a list option" where
  "sample_pool pool 0 gen = Some []"
| "sample_pool pool (Suc i) gen =
     (case randbelow (length pool) gen of
        None \<Rightarrow> None
      | Some (j, gen') \<Rightarrow>
          (case sample_pool (butlast (pool[j := last pool])) i gen' of
             None \<Rightarrow> None
           | Some result \<Rightarrow> Some (pool ! j # result)))"

text \<open>
  A larger population: each pick is \<open>j = randbelow(n)\<close>, drawn again while \<open>j\<close> is in the
  set \<open>selected\<close> of the slots picked so far (\<open>pick\<close>), and the item is \<open>population[j]\<close>.
\<close>

function pick :: "nat \<Rightarrow> nat set \<Rightarrow> nat list \<Rightarrow> (nat \<times> nat list) option" where
  "pick n selected gen =
     (case randbelow n gen of
        None \<Rightarrow> None
      | Some (j, gen') \<Rightarrow> if j \<in> selected then pick n selected gen' else Some (j, gen'))"
  by pat_completeness auto
termination
  by (relation "measure (\<lambda>(n, selected, gen). length gen)") (auto dest: randbelow_shorter)

declare pick.simps [simp del] ceil_pow4.simps [simp del]

fun sample_set :: "'a list \<Rightarrow> nat set \<Rightarrow> nat \<Rightarrow> nat list \<Rightarrow> 'a list option" where
  "sample_set population selected 0 gen = Some []"
| "sample_set population selected (Suc i) gen =
     (case pick (length population) selected gen of
        None \<Rightarrow> None
      | Some (j, gen') \<Rightarrow>
          (case sample_set population (insert j selected) i gen' of
             None \<Rightarrow> None
           | Some result \<Rightarrow> Some (population ! j # result)))"

definition random_sample :: "'a list \<Rightarrow> nat \<Rightarrow> nat list \<Rightarrow> (error + 'a list) option" where
  "random_sample population k gen =
     (let n = length population
      in if n < k then Some (Inl SampleLargerThanPopulation)
         else if n \<le> setsize k then map_option Inr (sample_pool population k gen)
         else map_option Inr (sample_set population {} k gen))"

section \<open>The DQN cell: replay memory, sampling\<close>

definition sample :: "'a ReplayMemory \<Rightarrow> nat \<Rightarrow> nat list \<Rightarrow> (error + 'a option list) option" where
  "sample m batch_size gen = random_sample (memory m) batch_size gen"



section \<open>The DQN cell: exploration policy\<close>

record AnnealedEpsGreedyPolicy =
  eps_start :: real
  eps_end :: real
  eps_decay :: real
  steps_done :: nat

definition AnnealedEpsGreedyPolicy_init :: "real \<Rightarrow> real \<Rightarrow> real \<Rightarrow> AnnealedEpsGreedyPolicy" where
  "AnnealedEpsGreedyPolicy_init es ee ed =
     \<lparr>eps_start = es, eps_end = ee, eps_decay = ed, steps_done = 0\<rparr>"

text \<open>
  \<open>np.argmax\<close>: one pass that keeps the position of the first strictly larger element;
  a \<open>ValueError\<close> on an empty array.
\<close>

fun argmax_from :: "nat \<Rightarrow> real \<Rightarrow> nat \<Rightarrow> real list \<Rightarrow> nat" where
  "argmax_from best mp i [] = best"
| "argmax_from best mp i (x # xs) =
     (if x > mp then argmax_from i x (Suc i) xs else argmax_from best mp (Suc i) xs)"

definition argmax :: "real list \<Rightarrow> error + nat" where
  "argmax q_values =
     (case q_values of [] \<Rightarrow> Inl EmptySequence | x # xs \<Rightarrow> Inr (argmax_from 0 x 1 xs))"

text \<open>
  The largest finite float is \<open>2^1024 - 2^971\<close>. A value at or above \<open>2^1024 - 2^970\<close>, half
  a unit in the last place further, rounds beyond it: converting such an integer to a
  float raises \<open>OverflowError\<close>, and so does \<open>math.exp\<close> with such a result.
\<close>

definition float_limit :: nat where
  "float_limit = 2 ^ 1024 - 2 ^ 970"

definition overflows :: "real \<Rightarrow> bool" where
  "overflows y = (real float_limit \<le> y)"

text \<open>
  \<open>select_action(q_values)\<close>, with the value \<open>smpl\<close> of \<open>random.random()\<close> and the values
  \<open>gen\<close> the generator supplies to \<open>random.randrange\<close>, should it be called. The first
  component is the returned action or the exception, or \<open>None\<close> when \<open>randrange\<close> does
  not return on \<open>gen\<close>; the second is the policy object as the call leaves it. The
  threshold is computed before \<open>steps_done\<close> is incremented: \<open>-1. * self.steps_done\<close>
  converts the counter to a float, the division raises for \<open>eps_decay = 0\<close>, \<open>math.exp\<close>
  raises when its result overflows (a quotient that itself leaves the range of a float
  is outside the embedding). \<open>np.argmax\<close> and \<open>randrange\<close> raise after the increment.
\<close>

definition select_action ::
  "AnnealedEpsGreedyPolicy \<Rightarrow> real list \<Rightarrow> real \<Rightarrow> nat list \<Rightarrow>
   (error + nat) option \<times> AnnealedEpsGreedyPolicy" where
  "select_action self q_values smpl gen =
     (if overflows (real (steps_done self)) then (Some (Inl OverflowError), self)
      else if eps_decay self = 0 then (Some (Inl ZeroDivisionError), self)
      else if overflows (exp (- 1 * real (steps_done self) / eps_decay self))
        then (Some (Inl OverflowError), self)
      else
        let eps_threshold = eps_end self + (eps_start self - eps_end self) *
                              exp (- 1 * real (steps_done self) / eps_decay self);
            self' = self\<lparr>steps_done := steps_done self + 1\<rparr>
        in if smpl > eps_threshold then (Some (argmax q_values), self')
           else (randrange (length q_values) gen, self'))"

text \<open>A sequence of calls on one policy object, whatever the outcome of each call.\<close>

fun select_actions ::
  "AnnealedEpsGreedyPolicy \<Rightarrow> (real list \<times> real \<times> nat list) list \<Rightarrow> AnnealedEpsGreedyPolicy" where
  "select_actions self [] = self"
| "select_actions self ((q_values, smpl, gen) # calls) =
     select_actions (snd (select_action self q_values smpl gen)) calls"

section \<open>The DQN cell: optimisation step and training loop\<close>

text \<open>
  The two networks have one architecture; \<open>net ps x\<close> is the output of that architecture
  with parameters \<open>ps\<close> on the input \<open>x\<close>. The optimiser was built on the parameters of
  the policy network: \<open>opt_step\<close> stands for \<open>zero_grad\<close>, \<open>loss.backward()\<close>, the clamping
  of the gradients and \<open>optimizer.step()\<close>, and returns the new optimiser state and the
  new parameters of the policy network. The loss is a function of the policy parameters,
  the batch of states and actions, and the detached target values.
\<close>

record ('p, 'o) agent =
  replay :: "transition ReplayMemory"
  policy_net :: 'p
  target_net :: 'p
  optimizer :: 'o
  policy :: AnnealedEpsGreedyPolicy
  return_trace :: "real list"
  p_trace :: "real list list"

text \<open>\<open>torch.stack\<close> of a list of one-dimensional tensors.\<close>

definition stack :: "real list list \<Rightarrow> error + real list list" where
  "stack ts =
     (if ts = [] then Inl RuntimeError
      else if list_all (\<lambda>t. length t = length (hd ts)) ts then Inr ts
      else Inl RuntimeError)"

text \<open>\<open>.max(1)[0]\<close>: the largest entry of each row.\<close>

definition row_max :: "real list \<Rightarrow> error + real" where
  "row_max qs = (case qs of [] \<Rightarrow> Inl RuntimeError | q # r \<Rightarrow> Inr (fold max r q))"

text \<open>\<open>.gather(1, action_batch)\<close>: the entry of each row at the row's action.\<close>

definition gather :: "real list list \<Rightarrow> nat list \<Rightarrow> error + real list" where
  "gather rows acts =
     map_err (\<lambda>(qs, a). if a < length qs then Inr (qs ! a) else Inl RuntimeError) (zip rows acts)"

text \<open>\<open>zeros[mask] = values\<close>: the values go, in order, to the positions the mask selects.\<close>

fun masked_fill :: "bool list \<Rightarrow> real list \<Rightarrow> real list" where
  "masked_fill [] vs = []"
| "masked_fill (True # ms) (v # vs) = v # masked_fill ms vs"
| "masked_fill (True # ms) [] = 0 # masked_fill ms []"
| "masked_fill (False # ms) vs = 0 # masked_fill ms vs"

definition update_model ::
  "config \<Rightarrow> ('p \<Rightarrow> real list \<Rightarrow> real list) \<Rightarrow>
   ('o \<Rightarrow> 'p \<Rightarrow> real list list \<Rightarrow> nat list \<Rightarrow> real list \<Rightarrow> 'o \<times> 'p) \<Rightarrow>
   nat list \<Rightarrow> ('p, 'o) agent \<Rightarrow> (error + ('p, 'o) agent) option" where
  "update_model cfg net opt_step gen ag =
     (if len (replay ag) < BATCH_SIZE cfg then Some (Inr ag)
      else case sample (replay ag) (BATCH_SIZE cfg) gen of
        None \<Rightarrow> None
      | Some (Inl e) \<Rightarrow> Some (Inl e)
      | Some (Inr sampled) \<Rightarrow> Some
         (case those sampled of
            None \<Rightarrow> Inl TypeError
          | Some [] \<Rightarrow> Inl TypeError
          | Some transitions \<Rightarrow>
             let batch_state = map (\<lambda>(s, a, n, r). s) transitions;
                 batch_action = map (\<lambda>(s, a, n, r). a) transitions;
                 batch_next_state = map (\<lambda>(s, a, n, r). n) transitions;
                 batch_reward = map (\<lambda>(s, a, n, r). r) transitions;
                 non_final_mask = map (\<lambda>n. n \<noteq> None) batch_next_state
             in case stack (map the (filter (\<lambda>n. n \<noteq> None) batch_next_state)) of
                  Inl e \<Rightarrow> Inl e
                | Inr non_final_next_states \<Rightarrow>
                   (case stack batch_state of
                      Inl e \<Rightarrow> Inl e
                    | Inr state_batch \<Rightarrow>
                       (case gather (map (net (policy_net ag)) state_batch) batch_action of
                          Inl e \<Rightarrow> Inl e
                        | Inr state_action_values \<Rightarrow>
                           (case map_err row_max (map (net (target_net ag)) non_final_next_states) of
                              Inl e \<Rightarrow> Inl e
                            | Inr maxima \<Rightarrow>
                               let next_state_values = masked_fill non_final_mask maxima;
                                   expected_state_action_values =
                                     map2 (\<lambda>r v. r + GAMMA cfg * v) batch_reward next_state_values;
                                   (opt', pol') = opt_step (optimizer ag) (policy_net ag) state_batch
                                                    batch_action expected_state_action_values
                               in Inr (ag\<lparr>policy_net := pol', optimizer := opt'\<rparr>))))))"

text \<open>
  The body of the loop over \<open>t\<close>: \<open>rng g\<close> is what the generator yields during the step
  with running number \<open>g\<close> (the value of \<open>random.random()\<close>, the values supplied to
  \<open>randrange\<close>, the values supplied to \<open>random.sample\<close>). The loop variables are the agent,
  the current state, and the episode's \<open>reward_trace\<close> and \<open>p\<close>.
\<close>

definition train_step ::
  "config \<Rightarrow> ('p \<Rightarrow> real list \<Rightarrow> real list) \<Rightarrow>
   ('o \<Rightarrow> 'p \<Rightarrow> real list list \<Rightarrow> nat list \<Rightarrow> real list \<Rightarrow> 'o \<times> 'p) \<Rightarrow>
   (nat \<Rightarrow> real \<times> nat list \<times> nat list) \<Rightarrow> nat \<Rightarrow> nat \<Rightarrow>
   ('p, 'o) agent \<times> ndarray \<times> real list \<times> real list \<Rightarrow>
   (error + (('p, 'o) agent \<times> ndarray \<times> real list \<times> real list)) option" where
  "train_step cfg net opt_step rng i_episode t loop =
     (case loop of (ag, st, reward_trace, p) \<Rightarrow>
      (case rng (i_episode * T cfg + t) of (smpl, gen_action, gen_sample) \<Rightarrow>
       (case select_action (policy ag) (net (policy_net ag) (data st)) smpl gen_action of
          (None, pol') \<Rightarrow> None
        | (Some (Inl e), pol') \<Rightarrow> Some (Inl e)
        | (Some (Inr act), pol') \<Rightarrow>
           (case env_step cfg t st act of
              Inl e \<Rightarrow> Some (Inl e)
            | Inr (next_state, reward) \<Rightarrow>
               (case push (replay ag)
                       (data st, act, if t \<noteq> T cfg - 1 then Some (data next_state) else None, reward) of
                  Inl e \<Rightarrow> Some (Inl e)
                | Inr mem' \<Rightarrow>
                   (case update_model cfg net opt_step gen_sample (ag\<lparr>replay := mem', policy := pol'\<rparr>) of
                      None \<Rightarrow> None
                    | Some (Inl e) \<Rightarrow> Some (Inl e)
                    | Some (Inr ag') \<Rightarrow>
                       Some (Inr (ag', next_state, reward_trace @ [reward], p @ [price_grid cfg ! act]))))))))"

text \<open>
  One iteration of the loop over \<open>i_episode\<close>: the loop over \<open>t\<close> from the initial state
  (\<open>step_loop\<close>), the bookkeeping, and the synchronisation
  \<open>target_net.load_state_dict(policy_net.state_dict())\<close> when \<open>i_episode % TARGET_UPDATE == 0\<close>.
\<close>

definition step_loop ::
  "config \<Rightarrow> ('p \<Rightarrow> real list \<Rightarrow> real list) \<Rightarrow>
   ('o \<Rightarrow> 'p \<Rightarrow> real list list \<Rightarrow> nat list \<Rightarrow> real list \<Rightarrow> 'o \<times> 'p) \<Rightarrow>
   (nat \<Rightarrow> real \<times> nat list \<times> nat list) \<Rightarrow> nat \<Rightarrow> ('p, 'o) agent \<Rightarrow>
   (error + (('p, 'o) agent \<times> ndarray \<times> real list \<times> real list)) option" where
  "step_loop cfg net opt_step rng i_episode ag =
     foldM_err (train_step cfg net opt_step rng i_episode) [0..<T cfg]
       (ag, env_initial_state cfg, [], [])"

definition episode ::
  "config \<Rightarrow> ('p \<Rightarrow> real list \<Rightarrow> real list) \<Rightarrow>
   ('o \<Rightarrow> 'p \<Rightarrow> real list list \<Rightarrow> nat list \<Rightarrow> real list \<Rightarrow> 'o \<times> 'p) \<Rightarrow>
   (nat \<Rightarrow> real \<times> nat list \<times> nat list) \<Rightarrow> nat \<Rightarrow> ('p, 'o) agent \<Rightarrow>
   (error + ('p, 'o) agent) option" where
  "episode cfg net opt_step rng i_episode ag =
     (case step_loop cfg net opt_step rng i_episode ag of
        None \<Rightarrow> None
      | Some (Inl e) \<Rightarrow> Some (Inl e)
      | Some (Inr (ag1, st, reward_trace, p)) \<Rightarrow>
         let ag2 = ag1\<lparr>return_trace := return_trace ag1 @ [sum_list reward_trace],
                       p_trace := p_trace ag1 @ [p]\<rparr>
         in if TARGET_UPDATE cfg = 0 then Some (Inl ZeroDivisionError)
            else if i_episode mod TARGET_UPDATE cfg = 0
                 then Some (Inr (ag2\<lparr>target_net := policy_net ag2\<rparr>))
                 else Some (Inr ag2))"

text \<open>
  The main training loop: the objects as the cell creates them, then \<open>num_episodes\<close>
  episodes. The target network is created with parameters of its own, which the
  \<open>load_state_dict\<close> before the loop replaces by those of the policy network.
\<close>

definition agent_init :: "nat \<Rightarrow> 'p \<Rightarrow> 'p \<Rightarrow> 'o \<Rightarrow> ('p, 'o) agent" where
  "agent_init cap pol_params tgt_params opt =
     \<lparr>replay = ReplayMemory_init cap, policy_net = pol_params, target_net = pol_params,
      optimizer = opt, policy = AnnealedEpsGreedyPolicy_init (9 / 10) (5 / 100) 400,
      return_trace = [], p_trace = []\<rparr>"

definition train ::
  "config \<Rightarrow> ('p \<Rightarrow> real list \<Rightarrow> real list) \<Rightarrow>
   ('o \<Rightarrow> 'p \<Rightarrow> real list list \<Rightarrow> nat list \<Rightarrow> real list \<Rightarrow> 'o \<times> 'p) \<Rightarrow>
   (nat \<Rightarrow> real \<times> nat list \<times> nat list) \<Rightarrow> nat \<Rightarrow> ('p, 'o) agent \<Rightarrow>
   (error + ('p, 'o) agent) option" where
  "train cfg net opt_step rng num_episodes ag =
     foldM_err (episode cfg net opt_step rng) [0..<num_episodes] ag"

section \<open>Predicates of the statements\<close>

text \<open>
  The state of a memory of capacity \<open>C\<close> after the pushes \<open>xs\<close>: while it fills, the
  list is \<open>xs\<close>; afterwards, read from the cursor, it is the last \<open>C\<close> of \<open>xs\<close>.
\<close>

definition ring_inv :: "nat \<Rightarrow> 'a list \<Rightarrow> 'a ReplayMemory \<Rightarrow> bool" where
  "ring_inv C xs m =
     (capacity m = C \<and> position m = length xs mod C \<and>
      (if length xs < C then memory m = map Some xs
       else length (memory m) = C \<and>
            rotate (position m) (memory m) = map Some (drop (length xs - C) xs)))"

text \<open>A slot that holds a transition whose \<open>next_state\<close> is \<open>None\<close>, the terminal marker.\<close>

definition terminal_slot :: "transition option \<Rightarrow> bool" where
  "terminal_slot x = (case x of Some (s, a, None, r) \<Rightarrow> True | _ \<Rightarrow> False)"

section \<open>Replay memory: ring semantics\<close>

lemma push_all_snoc:
  "push_all m (xs @ [x]) = (case push_all m xs of Inl e \<Rightarrow> Inl e | Inr m' \<Rightarrow> push m' x)"
  by (induction xs arbitrary: m) (auto split: sum.splits)

lemma rotate_overwrite:
  assumes "p < length ys"
  shows "rotate ((p + 1) mod length ys) (ys[p := v]) = tl (rotate p ys) @ [v]"
proof -
  have r: "rotate p ys = drop p ys @ take p ys"
    using assms by (simp add: rotate_drop_take)
  have d: "drop p ys = ys ! p # drop (Suc p) ys"
    using assms by (simp add: Cons_nth_drop_Suc)
  show ?thesis
  proof (cases "Suc p < length ys")
    case True
    then have "rotate ((p + 1) mod length ys) (ys[p := v])
        = drop (Suc p) (ys[p := v]) @ take (Suc p) (ys[p := v])"
      by (simp add: rotate_drop_take)
    also have "\<dots> = drop (Suc p) ys @ take p ys @ [v]"
      using assms by (simp add: take_Suc_conv_app_nth)
    finally show ?thesis using r d by simp
  next
    case False
    then have e: "Suc p = length ys" using assms by simp
    then have "rotate ((p + 1) mod length ys) (ys[p := v]) = ys[p := v]" by simp
    also have "\<dots> = take p ys @ [v]"
      using e assms by (metis drop_all le_refl upd_conv_take_nth_drop)
    finally show ?thesis using r d e by simp
  qed
qed

lemma mset_rotate_eq: "mset (rotate n xs) = mset xs"
proof -
  have "mset (drop (n mod length xs) xs @ take (n mod length xs) xs)
      = mset (take (n mod length xs) xs @ drop (n mod length xs) xs)"
    by (simp only: mset_append add.commute)
  then show ?thesis by (simp add: rotate_drop_take)
qed

lemma push_all_ring_inv:
  assumes "1 \<le> C"
  shows "\<exists>m. push_all (ReplayMemory_init C) xs = Inr m \<and> ring_inv C xs m"
proof (induction xs rule: rev_induct)
  case Nil
  show ?case using assms by (simp add: ReplayMemory_init_def ring_inv_def)
next
  case (snoc x xs)
  then obtain m where m: "push_all (ReplayMemory_init C) xs = Inr m" and inv: "ring_inv C xs m"
    by blast
  show ?case
  proof (cases "length xs < C")
    case True
    with inv have mm: "memory m = map Some xs" "position m = length xs" "capacity m = C"
      by (simp_all add: ring_inv_def)
    have "push m x = Inr (m\<lparr>memory := map Some (xs @ [x]), position := Suc (length xs) mod C\<rparr>)"
      using True mm by (simp add: push_def list_update_append)
    moreover have "ring_inv C (xs @ [x]) (m\<lparr>memory := map Some (xs @ [x]), position := Suc (length xs) mod C\<rparr>)"
    proof (cases "Suc (length xs) < C")
      case True
      then show ?thesis using mm by (simp add: ring_inv_def)
    next
      case False
      with \<open>length xs < C\<close> have "Suc (length xs) = C" by simp
      then show ?thesis using mm by (auto simp: ring_inv_def)
    qed
    ultimately show ?thesis using m by (simp add: push_all_snoc)
  next
    case False
    with inv have all: "capacity m = C \<and> position m = length xs mod C \<and> length (memory m) = C \<and>
        rotate (position m) (memory m) = map Some (drop (length xs - C) xs)"
      unfolding ring_inv_def by (metis (full_types))
    then have mm: "length (memory m) = C" "position m = length xs mod C" "capacity m = C"
      and rot: "rotate (position m) (memory m) = map Some (drop (length xs - C) xs)"
      by blast+
    have plt: "position m < length (memory m)" using mm assms by simp
    let ?m' = "m\<lparr>memory := (memory m)[position m := Some x], position := (position m + 1) mod C\<rparr>"
    have "push m x = Inr ?m'"
      using mm(1,3) plt assms by (simp add: push_def)
    moreover have "ring_inv C (xs @ [x]) ?m'"
    proof -
      have "rotate ((position m + 1) mod C) ((memory m)[position m := Some x])
          = tl (rotate (position m) (memory m)) @ [Some x]"
        using rotate_overwrite[OF plt, of "Some x"] mm by simp
      also have "\<dots> = map Some (drop (Suc (length xs) - C) (xs @ [x]))"
      proof -
        define k where "k = length xs - C"
        have k1: "Suc (length xs) - C = Suc k" and k2: "Suc k \<le> length xs"
          using False assms by (simp_all add: k_def)
        have "tl (map Some (drop k xs)) = map Some (drop (Suc k) xs)"
          by (metis drop_Suc map_tl tl_drop)
        moreover have "drop (Suc k) (xs @ [x]) = drop (Suc k) xs @ [x]"
          using k2 by simp
        ultimately show ?thesis using rot k1 by (simp add: k_def)
      qed
      finally have "rotate ((position m + 1) mod C) ((memory m)[position m := Some x])
          = map Some (drop (Suc (length xs) - C) (xs @ [x]))" .
      moreover have "(position m + 1) mod C = Suc (length xs) mod C"
        using mm by (simp add: mod_Suc_eq)
      ultimately show ?thesis using False mm by (simp add: ring_inv_def)
    qed
    ultimately show ?thesis using m by (simp add: push_all_snoc)
  qed
qed

text \<open>
  Claim C3. For every capacity \<open>C \<ge> 1\<close> and every \<open>k\<close>, the \<open>C + k\<close> pushes \<open>xs\<close> into a new
  memory of capacity \<open>C\<close> all succeed; afterwards the size is \<open>min (C + k) C\<close>, which
  is at most the capacity, and the memory holds exactly the last \<open>C\<close> pushed transitions
  \<open>drop k xs\<close>: read from the cursor onwards it lists them from the oldest to the newest,
  so the cursor is on the oldest one, which the next push overwrites.
\<close>

theorem push_ring_semantics:
  assumes "1 \<le> C" and "length xs = C + k"
  shows "\<exists>m. push_all (ReplayMemory_init C) xs = Inr m \<and>
             len m = min (C + k) C \<and> len m \<le> capacity m \<and>
             rotate (position m) (memory m) = map Some (drop k xs) \<and>
             mset (memory m) = mset (map Some (drop k xs))"
proof -
  obtain m where m: "push_all (ReplayMemory_init C) xs = Inr m" and inv: "ring_inv C xs m"
    using push_all_ring_inv[OF assms(1)] by blast
  have nl: "\<not> length xs < C" and d: "length xs - C = k"
    using assms(2) by simp_all
  from inv nl have "capacity m = C \<and> length (memory m) = C \<and>
      rotate (position m) (memory m) = map Some (drop (length xs - C) xs)"
    unfolding ring_inv_def by (metis (full_types))
  then have c: "capacity m = C" and l: "length (memory m) = C"
    and r: "rotate (position m) (memory m) = map Some (drop k xs)"
    using d by simp_all
  have "mset (memory m) = mset (rotate (position m) (memory m))"
    by (simp add: mset_rotate_eq)
  then have "mset (memory m) = mset (map Some (drop k xs))" using r by simp
  with m c l r show ?thesis by (simp add: len_def)
qed

theorem push_ring_semantics_witness:
  "(1::nat) \<le> 2 \<and> length [10, 20, 30 :: nat] = 2 + 1 \<and>
   push_all (ReplayMemory_init 2) [10, 20, 30 :: nat]
     = Inr \<lparr>capacity = 2, memory = [Some 30, Some 20], position = 1\<rparr> \<and>
   (\<exists>m. push_all (ReplayMemory_init 2) [10, 20, 30 :: nat] = Inr m \<and>
        len m = min (2 + 1) 2 \<and> len m \<le> capacity m \<and>
        rotate (position m) (memory m) = map Some (drop 1 [10, 20, 30]) \<and>
        mset (memory m) = mset (map Some (drop 1 [10, 20, 30])))"
  using push_ring_semantics [of 2 "[10, 20, 30 :: nat]" 1]
  by (simp add: ReplayMemory_init_def push_def)

section \<open>Environment: next state and reward\<close>

lemma cast_one: "cast d 1 = 1"
  by (cases d) (simp_all add: cast_def trunc_def)

lemma setslice_window:
  assumes "1 \<le> n" "length a = 2 * n" "length src = n - 1"
  shows "setslice a 1 n src = Inr (take 1 a @ src @ drop n a)"
  using assms by (simp add: setslice_def Let_def min_def max_def)

lemma env_step_result:
  assumes t: "t < T cfg" and l: "length (data st) = 2 * T cfg" and a: "act < length (price_grid cfg)"
  shows "env_step cfg t st act =
           Inr (\<lparr>dtype = dtype st,
                 data = cast (dtype st) (price_grid cfg ! act) # take (T cfg - 1) (data st)
                          @ (replicate (T cfg) 0)[t := 1]\<rparr>,
                cast (dtype st) (price_grid cfg ! act)
                  - (1 / 10) * sum_list (map abs (diff (take (T cfg - 1) (data st)))))"
proof -
  define n where "n = T cfg"
  define c where "c = cast (dtype st) (price_grid cfg ! act)"
  define w where "w = take (n - 1) (data st)"
  have n1: "1 \<le> n" using t by (simp add: n_def)
  have lw: "length w = n - 1" using l n1 by (simp add: w_def n_def)
  let ?z = "replicate (2 * n) (0::real)"
  have z: "?z[0 := c] = c # replicate (2 * n - 1) 0"
    using n1 by (cases "2 * n") simp_all
  have s: "setslice (?z[0 := c]) 1 n w = Inr (take 1 (?z[0 := c]) @ w @ drop n (?z[0 := c]))"
    using setslice_window[OF n1 _ lw, of "?z[0 := c]"] by simp
  have d: "drop n (?z[0 := c]) = replicate n 0"
    using n1 by (simp add: z drop_Cons' )
  have s2: "setslice (?z[0 := c]) 1 n w = Inr (c # w @ replicate n 0)"
    using s d by (simp add: z)
  have u: "(c # w @ replicate n 0)[n + t := 1] = c # w @ (replicate n 0)[t := 1]"
  proof -
    have len: "length (c # w) = n" using lw n1 by simp
    have "((c # w) @ replicate n 0)[n + t := 1] = (c # w) @ (replicate n 0)[n + t - length (c # w) := 1]"
      unfolding list_update_append using len by (simp del: length_Cons list_update.simps append_Cons)
    then show ?thesis using len by (simp del: length_Cons)
  qed
  define r where "r = c # w @ (replicate n 0)[t := 1]"
  have s3: "setslice (?z[0 := c]) (Suc 0) n (take (n - Suc 0) (data st))
              = Inr (c # w @ replicate n 0)"
    using s2 by (simp add: w_def)
  have lr: "length (c # w @ replicate n 0) = 2 * n"
    using lw n1 by simp
  have r0: "r ! 0 = c" by (simp add: r_def)
  have rw: "take (n - 1) (drop 1 r) = w" using lw by (simp add: r_def)
  show ?thesis
    using t l a n1
    unfolding env_step_def Let_def n_def[symmetric] c_def[symmetric]
    apply (simp add: s3 cast_one del: length_take take_all_iff list_update.simps length_Cons length_append)
    apply (simp only: u lr r_def[symmetric] r0 rw profit_t_response_def)
    apply (simp add: r_def w_def)
    done
qed

lemma price_grid_notebook:
  "price_grid notebook_config
     = [80, 760 / 9, 800 / 9, 280 / 3, 880 / 9, 920 / 9, 320 / 3, 1000 / 9, 1040 / 9, 120]"
  by (simp add: notebook_config_def linspace_def upt_rec)

text \<open>
  Claim C1, as stated: the reward of \<open>env_step\<close> is demand times margin,
  \<open>q_t price prev_price \<dots> * (price - unit_cost)\<close>. It is not. In the second step of an
  episode (\<open>t = 1\<close>) whose first price was 80, choosing the price 80 again (action 0) gives
  the reward \<open>80 - 0.1 * |0 - 80| = 72\<close>, whereas the demand formula with the notebook's
  market parameters gives \<open>3400 * (80 - 100) = -68000\<close>.
\<close>

theorem env_step_reward_counterexample:
  "env_step notebook_config 1
     \<lparr>dtype = Int64, data = [80, 0, 0, 0, 0, 0, 0, 0, 0, 0, 1, 0, 0, 0, 0, 0, 0, 0, 0, 0]\<rparr> 0
   = Inr (\<lparr>dtype = Int64, data = [80, 80, 0, 0, 0, 0, 0, 0, 0, 0, 0, 1, 0, 0, 0, 0, 0, 0, 0, 0]\<rparr>, 72)
   \<and> profit_t 80 80 5000 20 300 100 100 = - 68000
   \<and> profit_t_response_demand 80 80 \<noteq> 72"
proof -
  have "env_step notebook_config 1
     \<lparr>dtype = Int64, data = [80, 0, 0, 0, 0, 0, 0, 0, 0, 0, 1, 0, 0, 0, 0, 0, 0, 0, 0, 0]\<rparr> 0
   = Inr (\<lparr>dtype = Int64, data = [80, 80, 0, 0, 0, 0, 0, 0, 0, 0, 0, 1, 0, 0, 0, 0, 0, 0, 0, 0]\<rparr>, 72)"
    using env_step_result[of 1 notebook_config
        "\<lparr>dtype = Int64, data = [80, 0, 0, 0, 0, 0, 0, 0, 0, 0, 1, 0, 0, 0, 0, 0, 0, 0, 0, 0]\<rparr>" 0]
    apply (simp add: price_grid_notebook)
    apply (simp add: notebook_config_def cast_def trunc_def eval_nat_numeral)
    done
  moreover have "profit_t 80 80 5000 20 300 100 100 = - 68000"
    by (simp add: profit_t_def q_t_def plus_py_def minus_py_def shock_def)
  ultimately show ?thesis by (simp add: profit_t_response_demand_def)
qed

text \<open>
  Claim C1, amended. For every time step \<open>t < T\<close>, state of length \<open>2T\<close> and valid action
  whose grid price the state's element type stores unchanged, \<open>env_step\<close> succeeds and its
  reward is the price minus a tenth of the summed absolute differences of neighbouring
  prices in the previous window \<open>state[0:T-1]\<close>. No demand, and none of \<open>q_0\<close>, \<open>k\<close>,
  \<open>a_q\<close>, \<open>b_q\<close>, \<open>unit_cost\<close>, enters it.
\<close>

theorem env_step_reward:
  assumes "t < T cfg" and "length (data st) = 2 * T cfg" and "act < length (price_grid cfg)"
    and "cast (dtype st) (price_grid cfg ! act) = price_grid cfg ! act"
  shows "\<exists>next_state. env_step cfg t st act =
           Inr (next_state,
                price_grid cfg ! act
                  - (1 / 10) * sum_list (map abs (diff (take (T cfg - 1) (data st)))))"
  using env_step_result[OF assms(1,2,3)] assms(4) by simp

theorem env_step_reward_witness:
  "1 < T notebook_config \<and>
   length [80, 0, 0, 0, 0, 0, 0, 0, 0, 0, 1, 0, 0, 0, 0, 0, 0, 0, 0, 0 :: real] = 2 * T notebook_config \<and>
   0 < length (price_grid notebook_config) \<and>
   cast Int64 (price_grid notebook_config ! 0) = price_grid notebook_config ! 0 \<and>
   (\<exists>next_state. env_step notebook_config 1
      \<lparr>dtype = Int64, data = [80, 0, 0, 0, 0, 0, 0, 0, 0, 0, 1, 0, 0, 0, 0, 0, 0, 0, 0, 0]\<rparr> 0
        = Inr (next_state, 72))"
  using env_step_reward[of 1 notebook_config
      "\<lparr>dtype = Int64, data = [80, 0, 0, 0, 0, 0, 0, 0, 0, 0, 1, 0, 0, 0, 0, 0, 0, 0, 0, 0]\<rparr>" 0]
  apply (simp add: price_grid_notebook)
  apply (simp add: notebook_config_def cast_def trunc_def eval_nat_numeral)
  done

text \<open>
  Claim C4: the next state holds the chosen grid price at index 0. At the first step of
  an episode of the notebook's configuration, with action 1, it does not: the chosen
  grid price is \<open>760/9 = 84.44\<dots>\<close>, and the next state holds 84 (as does the reward).
  \<open>env_initial_state\<close> is an integer array, \<open>np.zeros_like\<close> copies that element type,
  and the assignment of the price truncates it. The rest of the layout is as claimed:
  the window is shifted, the bit at index \<open>T + t = 10\<close> is the only one set.
\<close>

theorem env_step_truncates_price:
  "env_step notebook_config 0 (env_initial_state notebook_config) 1
     = Inr (\<lparr>dtype = Int64, data = [84, 0, 0, 0, 0, 0, 0, 0, 0, 0, 1, 0, 0, 0, 0, 0, 0, 0, 0, 0]\<rparr>, 84)
   \<and> price_grid notebook_config ! 1 = 760 / 9
   \<and> env_initial_state notebook_config = \<lparr>dtype = Int64, data = replicate 20 0\<rparr>"
proof -
  have "env_step notebook_config 0 (env_initial_state notebook_config) 1
     = Inr (\<lparr>dtype = Int64, data = [84, 0, 0, 0, 0, 0, 0, 0, 0, 0, 1, 0, 0, 0, 0, 0, 0, 0, 0, 0]\<rparr>, 84)"
    using env_step_result[of 0 notebook_config "env_initial_state notebook_config" 1]
    apply (simp add: price_grid_notebook)
    apply (simp add: notebook_config_def env_initial_state_def cast_def trunc_def eval_nat_numeral)
    done
  then show ?thesis
    by (simp add: price_grid_notebook) (simp add: env_initial_state_def notebook_config_def)
qed

section \<open>The generator: \<open>_randbelow\<close> and \<open>randrange\<close>\<close>

lemma randbelow_find:
  "randbelow n gen = (case find (\<lambda>r. r < n) gen of None \<Rightarrow> None
                       | Some j \<Rightarrow> Some (j, tl (dropWhile (\<lambda>r. \<not> r < n) gen)))"
  by (induction gen) (auto split: option.splits)


lemma randbelow_returns: "\<exists>r\<in>set gen. r < n \<Longrightarrow> \<exists>j gen'. randbelow n gen = Some (j, gen')"
  by (induction gen) auto

lemma randbelow_map:
  assumes "\<And>r. \<pi> r < n \<longleftrightarrow> r < n"
  shows "randbelow n (map \<pi> gen) = map_option (\<lambda>(j, gen'). (\<pi> j, map \<pi> gen')) (randbelow n gen)"
  using assms by (induction gen) auto

lemma randrange_find:
  "0 < n \<Longrightarrow> randrange n gen = map_option Inr (find (\<lambda>r. r < n) gen)"
  by (simp add: randrange_def randbelow_find split: option.splits)

lemma randrange_map:
  assumes "\<And>r. \<pi> r < n \<longleftrightarrow> r < n"
  shows "randrange n (map \<pi> gen) = map_option (map_sum id \<pi>) (randrange n gen)"
  by (simp add: randrange_def randbelow_map[of \<pi> n, OF assms] split: option.splits)

lemma randbelow_hit: "j < n \<Longrightarrow> randbelow n (j # gen) = Some (j, gen)"
  by simp


section \<open>Exploration policy\<close>

lemma argmax_from_spec:
  assumes "i = length pre" "best < length pre" "mp = pre ! best"
    "\<forall>j<length pre. pre ! j \<le> mp" "\<forall>j<best. pre ! j < mp"
  shows "argmax_from best mp i xs < length (pre @ xs) \<and>
         (\<forall>j<length (pre @ xs). (pre @ xs) ! j \<le> (pre @ xs) ! argmax_from best mp i xs) \<and>
         (\<forall>j<argmax_from best mp i xs. (pre @ xs) ! j < (pre @ xs) ! argmax_from best mp i xs)"
  using assms
proof (induction xs arbitrary: pre best mp i)
  case Nil
  then show ?case by simp
next
  case (Cons x xs)
  show ?case
  proof (cases "x > mp")
    case True
    have "argmax_from i x (Suc i) xs < length ((pre @ [x]) @ xs) \<and>
         (\<forall>j<length ((pre @ [x]) @ xs). ((pre @ [x]) @ xs) ! j \<le> ((pre @ [x]) @ xs) ! argmax_from i x (Suc i) xs) \<and>
         (\<forall>j<argmax_from i x (Suc i) xs. ((pre @ [x]) @ xs) ! j < ((pre @ [x]) @ xs) ! argmax_from i x (Suc i) xs)"
    proof (rule Cons.IH)
      show "Suc i = length (pre @ [x])" using Cons.prems by simp
      show "i < length (pre @ [x])" using Cons.prems by simp
      show "x = (pre @ [x]) ! i" using Cons.prems by simp
      show "\<forall>j<length (pre @ [x]). (pre @ [x]) ! j \<le> x"
        using Cons.prems True by (auto simp: nth_append less_Suc_eq intro: less_imp_le order_trans)
      show "\<forall>j<i. (pre @ [x]) ! j < x"
        using Cons.prems True by (auto simp: nth_append intro: le_less_trans)
    qed
    then show ?thesis using True by simp
  next
    case False
    have "argmax_from best mp (Suc i) xs < length ((pre @ [x]) @ xs) \<and>
         (\<forall>j<length ((pre @ [x]) @ xs). ((pre @ [x]) @ xs) ! j \<le> ((pre @ [x]) @ xs) ! argmax_from best mp (Suc i) xs) \<and>
         (\<forall>j<argmax_from best mp (Suc i) xs. ((pre @ [x]) @ xs) ! j < ((pre @ [x]) @ xs) ! argmax_from best mp (Suc i) xs)"
    proof (rule Cons.IH)
      show "Suc i = length (pre @ [x])" using Cons.prems by simp
      show "best < length (pre @ [x])" using Cons.prems by simp
      show "mp = (pre @ [x]) ! best" using Cons.prems by (simp add: nth_append)
      show "\<forall>j<length (pre @ [x]). (pre @ [x]) ! j \<le> mp"
        using Cons.prems False by (auto simp: nth_append less_Suc_eq)
      show "\<forall>j<best. (pre @ [x]) ! j < mp"
        using Cons.prems by (auto simp: nth_append)
    qed
    then show ?thesis using False by simp
  qed
qed

lemma argmax_spec:
  assumes "q \<noteq> []"
  shows "\<exists>i. argmax q = Inr i \<and> i < length q \<and> (\<forall>j<length q. q ! j \<le> q ! i) \<and> (\<forall>j<i. q ! j < q ! i)"
proof -
  obtain x xs where q: "q = x # xs" using assms by (cases q) auto
  have "argmax_from 0 x 1 xs < length ([x] @ xs) \<and>
         (\<forall>j<length ([x] @ xs). ([x] @ xs) ! j \<le> ([x] @ xs) ! argmax_from 0 x 1 xs) \<and>
         (\<forall>j<argmax_from 0 x 1 xs. ([x] @ xs) ! j < ([x] @ xs) ! argmax_from 0 x 1 xs)"
    by (rule argmax_from_spec) simp_all
  then show ?thesis by (simp add: q argmax_def)
qed

lemma float_limit_gt_one: "1 < float_limit"
proof -
  have "(2::nat) ^ 970 * 2 \<le> 2 ^ 970 * 2 ^ 54" by (intro mult_le_mono2) simp
  then have "(2::nat) ^ 970 + 2 ^ 970 \<le> 2 ^ 1024" by (simp add: power_add[symmetric])
  moreover have "(1::nat) < 2 ^ 970" by simp
  ultimately show ?thesis unfolding float_limit_def by linarith
qed

lemma float_limit_pos: "0 < float_limit"
  using float_limit_gt_one by simp

lemma below_float_limit: "n < 2 ^ 970 \<Longrightarrow> n < float_limit"
proof -
  have "(2::nat) ^ 970 * 2 \<le> 2 ^ 970 * 2 ^ 54" by (intro mult_le_mono2) simp
  then have "(2::nat) ^ 970 + 2 ^ 970 \<le> 2 ^ 1024" by (simp add: power_add[symmetric])
  then have "(2::nat) ^ 970 \<le> float_limit" unfolding float_limit_def by linarith
  then show "n < 2 ^ 970 \<Longrightarrow> n < float_limit" by simp
qed

lemma float_limit_le: "real float_limit \<le> 2 ^ 1024"
proof -
  have "float_limit \<le> 2 ^ 1024" by (simp add: float_limit_def)
  then have "real float_limit \<le> real (2 ^ 1024)" by (rule of_nat_mono)
  then show ?thesis by simp
qed

lemma not_overflows_le_one: "y \<le> 1 \<Longrightarrow> \<not> overflows y"
  using float_limit_gt_one by (simp add: overflows_def)

lemma not_overflows_counter: "n < float_limit \<Longrightarrow> \<not> overflows (real n)"
  by (simp add: overflows_def)

lemma exp_decay_le_one: "0 < d \<Longrightarrow> exp (- 1 * real n / d) \<le> 1"
  by simp

lemma overflows_exp_2000: "overflows (exp 2000)"
proof -
  have "(2::real) \<le> exp 1" using exp_ge_add_one_self[of "1::real"] by simp
  then have "(2::real) ^ 2000 \<le> exp 1 ^ 2000" by (intro power_mono) simp_all
  also have "\<dots> = exp (of_nat 2000 * 1)" by (rule exp_of_nat_mult[symmetric])
  finally have "(2::real) ^ 2000 \<le> exp 2000" by simp
  moreover have "(2::real) ^ 1024 \<le> 2 ^ 2000" by (intro power_increasing) simp_all
  ultimately show ?thesis using float_limit_le by (simp add: overflows_def)
qed

lemma select_action_normal:
  assumes "0 < eps_decay self" and "steps_done self < float_limit"
  shows "select_action self q_values smpl gen =
     (let eps_threshold = eps_end self + (eps_start self - eps_end self) *
                              exp (- real (steps_done self) / eps_decay self);
          self' = self\<lparr>steps_done := steps_done self + 1\<rparr>
      in if smpl > eps_threshold then (Some (argmax q_values), self')
         else (randrange (length q_values) gen, self'))"
proof -
  have "\<not> overflows (real (steps_done self))"
    using assms(2) by (rule not_overflows_counter)
  moreover have "\<not> overflows (exp (- 1 * real (steps_done self) / eps_decay self))"
    using exp_decay_le_one[OF assms(1)] by (rule not_overflows_le_one)
  ultimately show ?thesis using assms(1) by (simp add: select_action_def Let_def)
qed

lemma select_action_steps:
  "0 < eps_decay self \<Longrightarrow> steps_done self < float_limit \<Longrightarrow>
     steps_done (snd (select_action self q smpl gen)) = steps_done self + 1"
  by (simp add: select_action_normal Let_def)

lemma select_action_params:
  "eps_decay (snd (select_action self q smpl gen)) = eps_decay self"
  by (simp add: select_action_def Let_def)

lemma select_actions_steps:
  "0 < eps_decay self \<Longrightarrow> steps_done self + length calls \<le> float_limit \<Longrightarrow>
     steps_done (select_actions self calls) = steps_done self + length calls"
proof (induction calls arbitrary: self)
  case Nil
  then show ?case by simp
next
  case (Cons c calls)
  obtain q smpl gen where c: "c = (q, smpl, gen)" by (cases c) auto
  let ?s = "snd (select_action self q smpl gen)"
  have lt: "steps_done self < float_limit" using Cons.prems(2) by simp
  have st: "steps_done ?s = steps_done self + 1"
    using Cons.prems(1) lt by (rule select_action_steps)
  have "0 < eps_decay ?s" using Cons.prems(1) by (simp add: select_action_params)
  moreover have "steps_done ?s + length calls \<le> float_limit" using Cons.prems(2) st by simp
  ultimately have "steps_done (select_actions ?s calls) = steps_done ?s + length calls"
    by (rule Cons.IH)
  then show ?case using st by (simp add: c)
qed

text \<open>
  Claim C7, as stated: on every call the threshold is computed and an index is returned,
  the argmax or a random one. With \<open>eps_decay = -1\<close> and counter value 2000, \<open>math.exp\<close> is
  called on 2000 and raises \<open>OverflowError\<close>: the call returns no index, whatever the
  draw.
\<close>

theorem select_action_threshold_counterexample:
  "select_action \<lparr>eps_start = 9 / 10, eps_end = 5 / 100, eps_decay = - 1, steps_done = 2000\<rparr>
     [1, 2] (1 / 2) [0]
   = (Some (Inl OverflowError),
      \<lparr>eps_start = 9 / 10, eps_end = 5 / 100, eps_decay = - 1, steps_done = 2000\<rparr>)"
proof -
  have "\<not> overflows (real (2000::nat))"
    by (rule not_overflows_counter) (simp add: float_limit_def)
  then show ?thesis using overflows_exp_2000 by (simp add: select_action_def)
qed

text \<open>
  Claim C7, amended. On a call with counter value \<open>n = steps_done\<close>, for a float
  \<open>eps_decay > 0\<close>, a counter below \<open>2^1024 - 2^970\<close> (so that it converts to a float) and a
  non-empty vector of \<open>A\<close> values, the threshold is
  \<open>eps_end + (eps_start - eps_end) * exp (- n / eps_decay)\<close>. If the draw exceeds it, the
  call returns the index of a largest value, the lowest such index. Otherwise it
  returns what \<open>randrange(A)\<close> returns: the first number the generator supplies that is
  below \<open>A\<close>, an index in \<open>[0, A)\<close>; it returns as soon as the generator supplies such a
  number, every index of \<open>[0, A)\<close> is returned for some numbers of the generator, and
  renaming the numbers below \<open>A\<close> among themselves renames the index returned.
\<close>

theorem select_action_threshold:
  assumes "0 < eps_decay self" and "steps_done self < float_limit" and "q_values \<noteq> []"
  shows "let threshold = eps_end self + (eps_start self - eps_end self) *
                           exp (- real (steps_done self) / eps_decay self);
             result = fst (select_action self q_values smpl gen)
         in (threshold < smpl \<longrightarrow>
               (\<exists>i. result = Some (Inr i) \<and> i < length q_values \<and>
                    (\<forall>j<length q_values. q_values ! j \<le> q_values ! i) \<and>
                    (\<forall>j<i. q_values ! j < q_values ! i))) \<and>
            (smpl \<le> threshold \<longrightarrow>
               result = map_option Inr (find (\<lambda>r. r < length q_values) gen) \<and>
               (\<forall>j. result = Some (Inr j) \<longrightarrow> j < length q_values) \<and>
               ((\<exists>r\<in>set gen. r < length q_values) \<longrightarrow> (\<exists>j<length q_values. result = Some (Inr j))) \<and>
               (\<forall>a<length q_values. fst (select_action self q_values smpl (a # gen)) = Some (Inr a)) \<and>
               (\<forall>\<pi>. (\<forall>r. \<pi> r < length q_values \<longleftrightarrow> r < length q_values) \<longrightarrow>
                    fst (select_action self q_values smpl (map \<pi> gen)) = map_option (map_sum id \<pi>) result))"
proof -
  let ?A = "length q_values"
  have A: "0 < ?A" using assms(3) by simp
  have rr: "randrange ?A g = map_option Inr (find (\<lambda>r. r < ?A) g)" for g
    using A by (rule randrange_find)
  have below: "j < ?A" if "map_option Inr (find (\<lambda>r. r < ?A) gen) = Some (Inr j)" for j
    using that by (auto simp: find_Some_iff)
  have returns: "\<exists>j<?A. map_option Inr (find (\<lambda>r. r < ?A) gen) = Some (Inr j)"
    if "\<exists>r\<in>set gen. r < ?A"
  proof -
    from that obtain j where "find (\<lambda>r. r < ?A) gen = Some j"
      by (cases "find (\<lambda>r. r < ?A) gen") (auto simp: find_None_iff)
    then show ?thesis by (auto simp: find_Some_iff)
  qed
  have perm: "randrange ?A (map \<pi> gen) = map_option (map_sum id \<pi>) (randrange ?A gen)"
    if "\<forall>r. \<pi> r < ?A \<longleftrightarrow> r < ?A" for \<pi>
    using that by (intro randrange_map) simp
  show ?thesis
    using argmax_spec[OF assms(3)] below returns perm
    by (simp add: select_action_normal[OF assms(1,2)] Let_def rr[symmetric])
       (simp add: rr)
qed

theorem select_action_threshold_witness:
  "0 < eps_decay (AnnealedEpsGreedyPolicy_init (9 / 10) (5 / 100) 400) \<and>
   steps_done (AnnealedEpsGreedyPolicy_init (9 / 10) (5 / 100) 400) < float_limit \<and>
   [1, 3, 3, 2 :: real] \<noteq> [] \<and>
   fst (select_action (AnnealedEpsGreedyPolicy_init (9 / 10) (5 / 100) 400) [1, 3, 3, 2] (95 / 100) [7, 2, 1]) = Some (Inr 1) \<and>
   fst (select_action (AnnealedEpsGreedyPolicy_init (9 / 10) (5 / 100) 400) [1, 3, 3, 2] (1 / 2) [7, 2, 1]) = Some (Inr 2)"
  using select_action_threshold[of "AnnealedEpsGreedyPolicy_init (9 / 10) (5 / 100) 400"
      "[1, 3, 3, 2]" "95 / 100" "[7, 2, 1]"]
    select_action_threshold[of "AnnealedEpsGreedyPolicy_init (9 / 10) (5 / 100) 400"
      "[1, 3, 3, 2]" "1 / 2" "[7, 2, 1]"]
  by (simp add: AnnealedEpsGreedyPolicy_init_def select_action_normal float_limit_pos
        randrange_def argmax_def)

text \<open>
  Claim C5, as stated: with \<open>eps_start = eps_end = 0\<close> the call returns the argmax for
  every draw in \<open>[0, 1)\<close>. The draw 0 is in that range and does not exceed the threshold
  0: the call takes the random branch and returns what \<open>randrange\<close> returns, here index 0,
  while the argmax of \<open>[1, 2]\<close> is index 1.
\<close>

theorem select_action_zero_eps_counterexample:
  "fst (select_action \<lparr>eps_start = 0, eps_end = 0, eps_decay = 400, steps_done = 0\<rparr> [1, 2] 0 [0])
     = Some (Inr 0)
   \<and> argmax [1, 2] = Inr 1 \<and> (0::real) \<in> {0..<1}"
  by (simp add: select_action_normal float_limit_pos randrange_def argmax_def)

text \<open>
  Claim C5, amended. With \<open>eps_start = eps_end = 0\<close>, a float \<open>eps_decay > 0\<close>, a counter
  below \<open>2^1024 - 2^970\<close> and a non-empty vector of values, the call returns the argmax,
  the lowest index of a largest value, for every draw that is greater than 0, whatever
  the generator would supply to \<open>randrange\<close>.
\<close>

theorem select_action_zero_eps:
  assumes "eps_start self = 0" and "eps_end self = 0" and "0 < eps_decay self"
    and "steps_done self < float_limit" and "q_values \<noteq> []" and "0 < smpl"
  shows "\<exists>i. fst (select_action self q_values smpl gen) = Some (Inr i) \<and> argmax q_values = Inr i \<and>
             i < length q_values \<and> (\<forall>j<length q_values. q_values ! j \<le> q_values ! i) \<and>
             (\<forall>j<i. q_values ! j < q_values ! i)"
  using assms(1,2,6) argmax_spec[OF assms(5)]
  by (simp add: select_action_normal[OF assms(3,4)] Let_def)

theorem select_action_zero_eps_witness:
  "eps_start (AnnealedEpsGreedyPolicy_init 0 0 400) = 0 \<and>
   eps_end (AnnealedEpsGreedyPolicy_init 0 0 400) = 0 \<and>
   0 < eps_decay (AnnealedEpsGreedyPolicy_init 0 0 400) \<and>
   steps_done (AnnealedEpsGreedyPolicy_init 0 0 400) < float_limit \<and>
   [1, 2 :: real] \<noteq> [] \<and> (0::real) < 1 / 2 \<and>
   fst (select_action (AnnealedEpsGreedyPolicy_init 0 0 400) [1, 2] (1 / 2) [0]) = Some (Inr 1)"
  using select_action_zero_eps[of "AnnealedEpsGreedyPolicy_init 0 0 400" "[1, 2]" "1 / 2" "[0]"]
  by (simp add: AnnealedEpsGreedyPolicy_init_def float_limit_pos argmax_def)

text \<open>
  Claim C10, as stated: the counter increases by 1 on every call. With \<open>eps_decay = 0\<close>
  the division in the threshold raises \<open>ZeroDivisionError\<close> before the increment: the
  call leaves the counter at 7.
\<close>

theorem steps_done_increments_counterexample:
  "select_action \<lparr>eps_start = 9 / 10, eps_end = 5 / 100, eps_decay = 0, steps_done = 7\<rparr>
     [1, 2] (1 / 2) [0]
   = (Some (Inl ZeroDivisionError),
      \<lparr>eps_start = 9 / 10, eps_end = 5 / 100, eps_decay = 0, steps_done = 7\<rparr>)"
proof -
  have "\<not> overflows (real (7::nat))"
    by (rule not_overflows_counter) (simp add: float_limit_def)
  then show ?thesis by (simp add: select_action_def)
qed

text \<open>
  Claim C10, amended. For a float \<open>eps_decay > 0\<close>, every call of \<open>select_action\<close> made
  with a counter below \<open>2^1024 - 2^970\<close> (so that it converts to a float) increases
  \<open>steps_done\<close> by exactly 1, in the greedy and in the random branch, also when
  \<open>np.argmax\<close> or \<open>randrange\<close> then raise; after any \<open>m\<close> calls that keep the counter within
  that bound, it is its initial value plus \<open>m\<close>.
\<close>

theorem steps_done_increments:
  assumes "0 < eps_decay self"
  shows "(steps_done self < float_limit \<longrightarrow>
            steps_done (snd (select_action self q_values smpl gen)) = steps_done self + 1) \<and>
         (steps_done self + length calls \<le> float_limit \<longrightarrow>
            steps_done (select_actions self calls) = steps_done self + length calls)"
  using assms by (simp add: select_action_steps select_actions_steps)

theorem steps_done_increments_witness:
  "0 < eps_decay (AnnealedEpsGreedyPolicy_init (9 / 10) (5 / 100) 400) \<and>
   steps_done (AnnealedEpsGreedyPolicy_init (9 / 10) (5 / 100) 400) + 3 \<le> float_limit \<and>
   steps_done (snd (select_action (AnnealedEpsGreedyPolicy_init (9 / 10) (5 / 100) 400) [1, 2] (95 / 100) [0])) = 1 \<and>
   steps_done (select_actions (AnnealedEpsGreedyPolicy_init (9 / 10) (5 / 100) 400)
                 [([1, 2], 95 / 100, [0]), ([2, 1], 0, [5, 1]), ([], 1 / 2, [])]) = 3"
  using steps_done_increments[of "AnnealedEpsGreedyPolicy_init (9 / 10) (5 / 100) 400"
      "[1, 2]" "95 / 100" "[0]" "[([1, 2], 95 / 100, [0]), ([2, 1], 0, [5, 1]), ([], 1 / 2, [])]"]
    below_float_limit[of 2]
  by (simp add: AnnealedEpsGreedyPolicy_init_def float_limit_pos)

section \<open>Replay memory: sampling\<close>

lemma mset_pool_remove:
  assumes "j < length pool"
  shows "mset (butlast (pool[j := last pool])) = mset pool - {#pool ! j#}"
proof -
  from assms obtain xs l where p: "pool = xs @ [l]"
    by (cases pool rule: rev_cases) auto
  show ?thesis
  proof (cases "j < length xs")
    case True
    then have "butlast (pool[j := last pool]) = xs[j := l]"
      by (simp add: p list_update_append)
    moreover have "mset (xs[j := l]) = mset xs - {#xs ! j#} + {#l#}"
      using True by (simp add: mset_update)
    moreover have "xs ! j \<in># mset xs" using True by simp
    ultimately show ?thesis using True by (simp add: p nth_append)
  next
    case False
    then have "j = length xs" using assms p by simp
    then show ?thesis by (simp add: p)
  qed
qed


subsection \<open>The pool loop\<close>











subsection \<open>The loop with the set of selected slots\<close>











subsection \<open>\<open>random.sample\<close> and \<open>ReplayMemory.sample\<close>\<close>











section \<open>Optimisation step and training loop\<close>

lemma foldM_err_no_error:
  assumes "\<And>x s. f x s \<noteq> Some (Inl E)"
  shows "foldM_err f xs s \<noteq> Some (Inl E)"
proof (induction xs arbitrary: s)
  case Nil
  show ?case by simp
next
  case (Cons x xs)
  show ?case
  proof (cases "f x s")
    case None
    then show ?thesis by simp
  next
    case (Some r)
    then show ?thesis using assms[of x s] Cons.IH by (cases r) auto
  qed
qed

lemma foldM_err_invariant:
  assumes "\<And>x s s'. f x s = Some (Inr s') \<Longrightarrow> P s \<Longrightarrow> P s'"
    and "foldM_err f xs s = Some (Inr s')" and "P s"
  shows "P s'"
  using assms(2,3)
proof (induction xs arbitrary: s)
  case Nil
  then show ?case by simp
next
  case (Cons x xs)
  then obtain s1 where s1: "f x s = Some (Inr s1)" "foldM_err f xs s1 = Some (Inr s')"
    by (auto split: option.splits sum.splits)
  then show ?case using Cons.IH[of s1] assms(1)[OF s1(1)] Cons.prems(2) by simp
qed

lemma map_err_error:
  "map_err f xs = Inl e \<Longrightarrow> \<exists>x\<in>set xs. f x = Inl e"
  by (induction xs) (auto split: sum.splits)

lemma sample_error:
  "k \<le> length (memory m) \<Longrightarrow> sample m k gen \<noteq> Some (Inl SampleLargerThanPopulation)"
  by (auto simp: sample_def random_sample_def Let_def)

lemma stack_error: "stack ts \<noteq> Inl SampleLargerThanPopulation"
  by (simp add: stack_def)

lemma gather_error: "gather rows acts \<noteq> Inl SampleLargerThanPopulation"
proof
  assume "gather rows acts = Inl SampleLargerThanPopulation"
  then have "\<exists>x\<in>set (zip rows acts).
      (case x of (qs, a) \<Rightarrow> if a < length qs then Inr (qs ! a) else Inl RuntimeError)
        = Inl SampleLargerThanPopulation"
    unfolding gather_def by (rule map_err_error)
  then show False by (auto split: prod.splits if_splits)
qed

lemma row_max_error: "map_err row_max rows \<noteq> Inl SampleLargerThanPopulation"
proof
  assume "map_err row_max rows = Inl SampleLargerThanPopulation"
  then obtain x where "row_max x = Inl SampleLargerThanPopulation"
    by (blast dest: map_err_error)
  then show False by (auto simp: row_max_def split: list.splits)
qed

lemma update_model_skip:
  "len (replay ag) < BATCH_SIZE cfg \<Longrightarrow> update_model cfg net opt_step gen ag = Some (Inr ag)"
  by (simp add: update_model_def)

lemma update_model_error:
  "update_model cfg net opt_step gen ag \<noteq> Some (Inl SampleLargerThanPopulation)"
proof (cases "len (replay ag) < BATCH_SIZE cfg")
  case True
  then show ?thesis by (simp add: update_model_def)
next
  case False
  then have "sample (replay ag) (BATCH_SIZE cfg) gen \<noteq> Some (Inl SampleLargerThanPopulation)"
    by (simp add: sample_error len_def)
  then show ?thesis
    using False stack_error gather_error row_max_error
    by (auto simp: update_model_def Let_def split: sum.splits option.splits list.splits prod.splits)
qed

lemma update_model_frame:
  "update_model cfg net opt_step gen ag = Some (Inr ag') \<Longrightarrow>
     target_net ag' = target_net ag \<and> replay ag' = replay ag \<and> policy ag' = policy ag"
  by (auto simp: update_model_def Let_def split: if_splits sum.splits option.splits list.splits prod.splits)

lemma update_model_only_policy:
  "update_model cfg net opt_step gen ag = Some (Inr ag') \<Longrightarrow>
     ag' = ag\<lparr>policy_net := policy_net ag', optimizer := optimizer ag'\<rparr>"
  by (auto simp: update_model_def Let_def split: if_splits sum.splits option.splits list.splits prod.splits)

lemma randrange_error: "randrange n gen \<noteq> Some (Inl SampleLargerThanPopulation)"
  by (auto simp: randrange_def split: option.splits)

lemma select_action_error:
  "fst (select_action self q smpl gen) \<noteq> Some (Inl SampleLargerThanPopulation)"
  using randrange_error
  by (auto simp: select_action_def Let_def argmax_def split: list.splits)

lemma setslice_error: "setslice a lo hi src \<noteq> Inl SampleLargerThanPopulation"
  by (simp add: setslice_def Let_def)

lemma env_step_error: "env_step cfg t st act \<noteq> Inl SampleLargerThanPopulation"
  using setslice_error by (auto simp: env_step_def Let_def split: sum.splits)

lemma push_error: "push m x \<noteq> Inl SampleLargerThanPopulation"
  by (simp add: push_def Let_def)

lemma train_step_error:
  "train_step cfg net opt_step rng i t loop \<noteq> Some (Inl SampleLargerThanPopulation)"
proof
  assume a: "train_step cfg net opt_step rng i t loop = Some (Inl SampleLargerThanPopulation)"
  obtain ag st reward_trace p where l: "loop = (ag, st, reward_trace, p)"
    by (cases loop) auto
  obtain smpl ga gs where r: "rng (i * T cfg + t) = (smpl, ga, gs)"
    by (cases "rng (i * T cfg + t)") auto
  obtain res pol' where sa: "select_action (policy ag) (net (policy_net ag) (data st)) smpl ga = (res, pol')"
    by (cases "select_action (policy ag) (net (policy_net ag) (data st)) smpl ga") auto
  have re: "res \<noteq> Some (Inl SampleLargerThanPopulation)"
    using select_action_error[of "policy ag" "net (policy_net ag) (data st)" smpl ga] sa by simp
  show False
  proof (cases res)
    case None
    then show ?thesis using a l r sa by (simp add: train_step_def)
  next
    case (Some o1)
    show ?thesis
    proof (cases o1)
      case (Inl e)
      then show ?thesis using a l r sa Some re by (simp add: train_step_def)
    next
      case (Inr act)
      show ?thesis
      proof (cases "env_step cfg t st act")
        case (Inl e)
        then show ?thesis using a l r sa Some Inr env_step_error[of cfg t st act]
          by (simp add: train_step_def)
      next
        case es: (Inr nr)
        obtain next_state reward where nr: "nr = (next_state, reward)" by (cases nr) auto
        let ?tr = "(data st, act, if t \<noteq> T cfg - 1 then Some (data next_state) else None, reward)"
        show ?thesis
        proof (cases "push (replay ag) ?tr")
          case (Inl e)
          then show ?thesis using a l r sa Some Inr es nr push_error[of "replay ag" ?tr]
            by (simp add: train_step_def)
        next
          case pu: (Inr mem')
          show ?thesis
            using a l r sa Some Inr es nr pu
              update_model_error[of cfg net opt_step gs "ag\<lparr>replay := mem', policy := pol'\<rparr>"]
            by (simp add: train_step_def split: option.splits sum.splits)
        qed
      qed
    qed
  qed
qed

lemma train_step_frame:
  "train_step cfg net opt_step rng i t (ag, rest) = Some (Inr (ag', rest')) \<Longrightarrow>
     target_net ag' = target_net ag"
  unfolding train_step_def
  by (auto split: prod.splits option.splits sum.splits dest!: update_model_frame)

lemma step_loop_error:
  "step_loop cfg net opt_step rng i ag \<noteq> Some (Inl SampleLargerThanPopulation)"
  unfolding step_loop_def by (rule foldM_err_no_error) (rule train_step_error)

lemma episode_error:
  "episode cfg net opt_step rng i ag \<noteq> Some (Inl SampleLargerThanPopulation)"
  using step_loop_error[of cfg net opt_step rng i ag]
  by (auto simp: episode_def Let_def split: option.splits sum.splits prod.splits)

lemma train_error:
  "train cfg net opt_step rng num_episodes ag \<noteq> Some (Inl SampleLargerThanPopulation)"
  unfolding train_def by (rule foldM_err_no_error) (rule episode_error)

lemma step_loop_frame:
  assumes "step_loop cfg net opt_step rng i ag = Some (Inr (ag', rest'))"
  shows "target_net ag' = target_net ag"
proof -
  have "target_net (fst (ag', rest')) = target_net ag"
  proof (rule foldM_err_invariant[where P = "\<lambda>s. target_net (fst s) = target_net ag"
        and f = "train_step cfg net opt_step rng i" and xs = "[0..<T cfg]"
        and s = "(ag, env_initial_state cfg, [], [])"])
    fix x s s'
    assume "train_step cfg net opt_step rng i x s = Some (Inr s')" "target_net (fst s) = target_net ag"
    then show "target_net (fst s') = target_net ag"
      using train_step_frame[of cfg net opt_step rng i x "fst s" "snd s" "fst s'" "snd s'"] by simp
  qed (use assms in \<open>simp_all add: step_loop_def\<close>)
  then show ?thesis by simp
qed

lemma episode_result:
  assumes "episode cfg net opt_step rng i ag = Some (Inr ag')"
  shows "\<exists>ag1 st reward_trace p.
           step_loop cfg net opt_step rng i ag = Some (Inr (ag1, st, reward_trace, p)) \<and>
           target_net ag1 = target_net ag \<and>
           ag' = ag1\<lparr>return_trace := return_trace ag1 @ [sum_list reward_trace],
                      p_trace := p_trace ag1 @ [p],
                      target_net := (if i mod TARGET_UPDATE cfg = 0 then policy_net ag1
                                     else target_net ag1)\<rparr>"
proof -
  from assms obtain ag1 st reward_trace p
    where s: "step_loop cfg net opt_step rng i ag = Some (Inr (ag1, st, reward_trace, p))"
    by (auto simp: episode_def split: option.splits sum.splits prod.splits)
  have t: "target_net ag1 = target_net ag" using step_loop_frame[OF s] .
  have "ag' = ag1\<lparr>return_trace := return_trace ag1 @ [sum_list reward_trace],
                      p_trace := p_trace ag1 @ [p],
                      target_net := (if i mod TARGET_UPDATE cfg = 0 then policy_net ag1
                                     else target_net ag1)\<rparr>"
    using assms s by (auto simp: episode_def Let_def split: if_splits)
  then show ?thesis using s t by blast
qed

lemma terminal_slot_iff: "terminal_slot x \<longleftrightarrow> (\<exists>s a r. x = Some (s, a, None, r))"
  by (cases x) (auto simp: terminal_slot_def split: option.splits)

lemma those_all_Some: "\<forall>x\<in>set xs. x \<noteq> None \<Longrightarrow> those xs = Some (map the xs)"
  by (induction xs) auto

text \<open>
  Claim C2: for a sampled batch in which every \<open>next_state\<close> is the terminal marker, the
  optimisation step computes targets equal to the rewards and completes without error.
  It does not complete: for every such batch (of at least one transition),
  \<open>torch.stack\<close> is called on the empty list of non-final next states and raises, before
  any target is computed and before the optimiser runs.
\<close>

theorem update_model_all_terminal:
  assumes "BATCH_SIZE cfg \<le> len (replay ag)"
    and "sample (replay ag) (BATCH_SIZE cfg) gen = Some (Inr sampled)"
    and "sampled \<noteq> []"
    and "\<forall>x\<in>set sampled. terminal_slot x"
  shows "update_model cfg net opt_step gen ag = Some (Inl RuntimeError)"
proof -
  have ns: "\<forall>x\<in>set sampled. x \<noteq> None"
    using assms(4) by (auto simp: terminal_slot_iff)
  then have th: "those sampled = Some (map the sampled)" by (rule those_all_Some)
  have ne: "map the sampled \<noteq> []" using assms(3) by simp
  have "\<forall>tr\<in>set (map the sampled). (case tr of (s, a, n, r) \<Rightarrow> n) = None"
    using assms(4) by (fastforce simp: terminal_slot_iff)
  then have f: "filter (\<lambda>n. n \<noteq> None) (map (\<lambda>(s, a, n, r). n) (map the sampled)) = []"
    by (auto simp: filter_empty_conv)
  obtain tr trs where c: "map the sampled = tr # trs" using ne by (cases "map the sampled") auto
  show ?thesis
    using assms(1,2) th f
    unfolding update_model_def Let_def
    by (simp add: c stack_def)
qed

theorem update_model_all_terminal_witness:
  "update_model (notebook_config\<lparr>BATCH_SIZE := 2\<rparr>) (\<lambda>p s. [p, p]) (\<lambda>opt p sb ab e. (opt, p)) [1, 0]
     \<lparr>replay = \<lparr>capacity = 2, memory = [Some ([1, 0], 0, None, 80), Some ([0, 1], 1, None, 84)], position = 0\<rparr>,
      policy_net = (1::real), target_net = 0, optimizer = (), policy = AnnealedEpsGreedyPolicy_init 0 0 400,
      return_trace = [], p_trace = []\<rparr>
   = Some (Inl RuntimeError)"
  using update_model_all_terminal[of "notebook_config\<lparr>BATCH_SIZE := 2\<rparr>"
     "\<lparr>replay = \<lparr>capacity = 2, memory = [Some ([1, 0], 0, None, 80), Some ([0, 1], 1, None, 84)], position = 0\<rparr>,
      policy_net = (1::real), target_net = 0, optimizer = (), policy = AnnealedEpsGreedyPolicy_init 0 0 400,
      return_trace = [], p_trace = []\<rparr>" "[1, 0]"
     "[Some ([0, 1], 1, None, 84), Some ([1, 0], 0, None, 80)]" "\<lambda>p s. [p, p]" "\<lambda>opt p sb ab e. (opt, p)"]
  by (simp add: notebook_config_def len_def sample_def random_sample_def setsize_def numeral_2_eq_2
        terminal_slot_def)

text \<open>
  Claim C9. \<open>update_model\<close>, which every iteration of the training loop calls after its
  push, returns at once, with the agent (networks, optimiser, memory) unchanged, when
  the memory holds fewer than \<open>BATCH_SIZE\<close> transitions; so a step that changes the agent
  has a memory of at least \<open>BATCH_SIZE\<close>. The error of \<open>random.sample\<close> for a sample
  larger than the population is raised by no call of \<open>update_model\<close>, by no iteration of
  the loop and by no run of the training loop.
\<close>

theorem update_guarded_by_batch_size:
  "(len (replay ag) < BATCH_SIZE cfg \<longrightarrow> update_model cfg net opt_step gen ag = Some (Inr ag)) \<and>
   (\<forall>ag'. update_model cfg net opt_step gen ag = Some (Inr ag') \<and> ag' \<noteq> ag \<longrightarrow>
          BATCH_SIZE cfg \<le> len (replay ag)) \<and>
   update_model cfg net opt_step gen ag \<noteq> Some (Inl SampleLargerThanPopulation) \<and>
   train_step cfg net opt_step rng i_episode t loop \<noteq> Some (Inl SampleLargerThanPopulation) \<and>
   train cfg net opt_step rng num_episodes ag \<noteq> Some (Inl SampleLargerThanPopulation)"
proof (intro conjI impI allI)
  show "update_model cfg net opt_step gen ag = Some (Inr ag)" if "len (replay ag) < BATCH_SIZE cfg"
    using that by (rule update_model_skip)
  show "BATCH_SIZE cfg \<le> len (replay ag)"
    if "update_model cfg net opt_step gen ag = Some (Inr ag') \<and> ag' \<noteq> ag" for ag'
    using that update_model_skip[of ag cfg net opt_step gen]
    by (cases "len (replay ag) < BATCH_SIZE cfg") auto
  show "update_model cfg net opt_step gen ag \<noteq> Some (Inl SampleLargerThanPopulation)"
    by (rule update_model_error)
  show "train_step cfg net opt_step rng i_episode t loop \<noteq> Some (Inl SampleLargerThanPopulation)"
    by (rule train_step_error)
  show "train cfg net opt_step rng num_episodes ag \<noteq> Some (Inl SampleLargerThanPopulation)"
    by (rule train_error)
qed

theorem update_guarded_by_batch_size_witness:
  "len (replay (agent_init 10000 (1::real) 0 ())) < BATCH_SIZE notebook_config \<and>
   update_model notebook_config (\<lambda>p s. [p, p]) (\<lambda>opt p sb ab e. (opt, p)) [] (agent_init 10000 1 0 ())
     = Some (Inr (agent_init 10000 1 0 ()))"
  using update_guarded_by_batch_size[of "agent_init 10000 (1::real) 0 ()" notebook_config
      "\<lambda>p s. [p, p]" "\<lambda>opt p sb ab e. (opt, p)" "[]"]
  by (simp add: agent_init_def ReplayMemory_init_def len_def notebook_config_def)

text \<open>
  Claim C8. The optimisation step leaves the parameters of the target network as they
  are: it changes the parameters of the policy network and the state of the optimiser,
  and nothing else. An episode \<open>i\<close> that ends is its loop over \<open>t\<close>, which leaves the target
  parameters as they were before the episode, followed by the bookkeeping and, when
  \<open>i mod TARGET_UPDATE = 0\<close>, which includes episode 0, by the synchronisation: the target
  parameters become a copy of the policy parameters the loop over \<open>t\<close> has left, and the
  policy parameters stay what they are, so both networks give the same output on every
  state. At the end of any other episode the target parameters are those from before
  the episode.
\<close>

theorem target_sync_and_frame:
  "(\<forall>ag'. update_model cfg net opt_step gen ag = Some (Inr ag') \<longrightarrow>
       target_net ag' = target_net ag \<and>
       ag' = ag\<lparr>policy_net := policy_net ag', optimizer := optimizer ag'\<rparr>) \<and>
   (\<forall>ag'. episode cfg net opt_step rng i_episode ag = Some (Inr ag') \<longrightarrow>
       (\<exists>ag1 st reward_trace p.
          step_loop cfg net opt_step rng i_episode ag = Some (Inr (ag1, st, reward_trace, p)) \<and>
          target_net ag1 = target_net ag \<and>
          ag' = ag1\<lparr>return_trace := return_trace ag1 @ [sum_list reward_trace],
                     p_trace := p_trace ag1 @ [p],
                     target_net := (if i_episode mod TARGET_UPDATE cfg = 0 then policy_net ag1
                                    else target_net ag1)\<rparr> \<and>
          policy_net ag' = policy_net ag1 \<and>
          (i_episode mod TARGET_UPDATE cfg = 0 \<longrightarrow>
             target_net ag' = policy_net ag1 \<and>
             (\<forall>s. net (target_net ag') s = net (policy_net ag') s)) \<and>
          (i_episode mod TARGET_UPDATE cfg \<noteq> 0 \<longrightarrow> target_net ag' = target_net ag))) \<and>
   (\<forall>ag'. episode cfg net opt_step rng 0 ag = Some (Inr ag') \<longrightarrow>
       (\<exists>ag1 st reward_trace p.
          step_loop cfg net opt_step rng 0 ag = Some (Inr (ag1, st, reward_trace, p)) \<and>
          policy_net ag' = policy_net ag1 \<and> target_net ag' = policy_net ag1))"
proof (intro conjI impI allI)
  fix ag'
  assume u: "update_model cfg net opt_step gen ag = Some (Inr ag')"
  show "target_net ag' = target_net ag" using update_model_frame[OF u] by simp
  show "ag' = ag\<lparr>policy_net := policy_net ag', optimizer := optimizer ag'\<rparr>"
    by (rule update_model_only_policy[OF u])
next
  fix ag'
  assume e: "episode cfg net opt_step rng i_episode ag = Some (Inr ag')"
  from episode_result[OF e] obtain ag1 st reward_trace p where
    s: "step_loop cfg net opt_step rng i_episode ag = Some (Inr (ag1, st, reward_trace, p))"
    and t: "target_net ag1 = target_net ag"
    and r: "ag' = ag1\<lparr>return_trace := return_trace ag1 @ [sum_list reward_trace],
                     p_trace := p_trace ag1 @ [p],
                     target_net := (if i_episode mod TARGET_UPDATE cfg = 0 then policy_net ag1
                                    else target_net ag1)\<rparr>"
    by blast
  have p: "policy_net ag' = policy_net ag1" by (subst r) simp
  have t0: "target_net ag' = policy_net ag1" if "i_episode mod TARGET_UPDATE cfg = 0"
    using that by (subst r) simp
  have t1: "target_net ag' = target_net ag" if "i_episode mod TARGET_UPDATE cfg \<noteq> 0"
    using that t by (subst r) simp
  show "\<exists>ag1 st reward_trace p.
          step_loop cfg net opt_step rng i_episode ag = Some (Inr (ag1, st, reward_trace, p)) \<and>
          target_net ag1 = target_net ag \<and>
          ag' = ag1\<lparr>return_trace := return_trace ag1 @ [sum_list reward_trace],
                     p_trace := p_trace ag1 @ [p],
                     target_net := (if i_episode mod TARGET_UPDATE cfg = 0 then policy_net ag1
                                    else target_net ag1)\<rparr> \<and>
          policy_net ag' = policy_net ag1 \<and>
          (i_episode mod TARGET_UPDATE cfg = 0 \<longrightarrow>
             target_net ag' = policy_net ag1 \<and>
             (\<forall>s. net (target_net ag') s = net (policy_net ag') s)) \<and>
          (i_episode mod TARGET_UPDATE cfg \<noteq> 0 \<longrightarrow> target_net ag' = target_net ag)"
    using s t r p t0 t1 by (intro exI[of _ ag1] exI[of _ st] exI[of _ reward_trace] exI[of _ p]) simp
next
  fix ag'
  assume e: "episode cfg net opt_step rng 0 ag = Some (Inr ag')"
  from episode_result[OF e] obtain ag1 st reward_trace p where
    s: "step_loop cfg net opt_step rng 0 ag = Some (Inr (ag1, st, reward_trace, p))"
    and r: "ag' = ag1\<lparr>return_trace := return_trace ag1 @ [sum_list reward_trace],
                     p_trace := p_trace ag1 @ [p],
                     target_net := (if 0 mod TARGET_UPDATE cfg = 0 then policy_net ag1
                                    else target_net ag1)\<rparr>"
    by blast
  have "policy_net ag' = policy_net ag1" "target_net ag' = policy_net ag1"
    by (subst r, simp)+
  then show "\<exists>ag1 st reward_trace p.
          step_loop cfg net opt_step rng 0 ag = Some (Inr (ag1, st, reward_trace, p)) \<and>
          policy_net ag' = policy_net ag1 \<and> target_net ag' = policy_net ag1"
    using s by blast
qed

theorem target_sync_and_frame_witness:
  "episode \<lparr>T = 1, price_grid = [80], GAMMA = 1, TARGET_UPDATE = 20, BATCH_SIZE = 5\<rparr>
           (\<lambda>p s. [p]) (\<lambda>opt p sb ab e. (opt, p)) (\<lambda>g. (1 / 2, [0], [])) 0
           (agent_init 10 (1::real) 0 ()\<lparr>target_net := 0\<rparr>)
     = Some (Inr \<lparr>replay = \<lparr>capacity = 10, memory = [Some ([0, 0], 0, None, 80)], position = 1\<rparr>,
            policy_net = 1, target_net = 1, optimizer = (),
            policy = \<lparr>eps_start = 9 / 10, eps_end = 5 / 100, eps_decay = 400, steps_done = 1\<rparr>,
            return_trace = [80], p_trace = [[80]]\<rparr>)"
  using target_sync_and_frame[of "\<lparr>T = 1, price_grid = [80], GAMMA = 1, TARGET_UPDATE = 20, BATCH_SIZE = 5\<rparr>"
           "\<lambda>p s. [p]" "\<lambda>opt p sb ab e. (opt, p)" "[]" "agent_init 10 (1::real) 0 ()\<lparr>target_net := 0\<rparr>"
           "\<lambda>g. (1 / 2, [0], [])" 0]
  by (simp add: episode_def step_loop_def train_step_def agent_init_def ReplayMemory_init_def
     AnnealedEpsGreedyPolicy_init_def select_action_normal float_limit_pos
     randrange_def env_initial_state_def env_step_def setslice_def cast_def trunc_def
     profit_t_response_def push_def update_model_def len_def Let_def numeral_2_eq_2)


end
